theory Spec2Isabelle
  imports Complex_Main "HOL-Library.Sublist"
begin

section \<open>Voice-to-cursor: the incremental typing pipeline\<close>

text \<open>
  A shallow embedding of \<^verbatim>\<open>src/transcribe/voice_to_cursor.py\<close>.

  \<^item> Python floats (clock readings, stability) are modelled as \<open>real\<close>; rounding is not
    modelled.
  \<^item> A Python \<open>str\<close> is a \<open>string\<close> in which every \<open>char\<close> stands for one code point
    below 256; \<open>isspace\<close> and \<open>lower\<close> follow Python on that range.
  \<^item> The field \<^verbatim>\<open>text\<close> of \<^verbatim>\<open>Transcript\<close> is written \<open>text'\<close>.
  \<^item> Every call of \<^verbatim>\<open>time.time()\<close> is an input of the model: the reading the clock
    gave at that line.
  \<^item> The module-level globals, the fields of \<^verbatim>\<open>MicrophoneStream\<close>, the local
    \<^verbatim>\<open>state\<close> of \<^verbatim>\<open>handle_results\<close> and the strings handed to the keyboard are the
    fields of one record, passed through every function.
\<close>

subsection \<open>Constants\<close>

definition DEBUG :: bool where
  "DEBUG = False"

definition TYPE_INTERVAL :: real where
  "TYPE_INTERVAL = 1"

definition TYPE_STABILITY_THRESHOLD :: real where
  "TYPE_STABILITY_THRESHOLD = 7 / 10"



subsection \<open>Data\<close>

record Transcript =
  text' :: string
  stability :: real
  is_final :: bool

text \<open>The dataclass defaults: \<^verbatim>\<open>Transcript()\<close>.\<close>

definition Transcript_default :: Transcript where
  "Transcript_default = \<lparr>text' = [], stability = 0, is_final = False\<rparr>"

record SpeechResult =
  timestamp :: real
  transcript :: Transcript

record TypeState =
  last_type_time :: real
  last_typed_text :: string

text \<open>\<^verbatim>\<open>TypeState(last_type_time=t)\<close>: the typed text takes its default, the empty string.\<close>

definition TypeState_at :: "real \<Rightarrow> TypeState" where
  "TypeState_at t = \<lparr>last_type_time = t, last_typed_text = []\<rparr>"

text \<open>
  What the backend sends: a response holds results, a result holds alternatives, its
  finality flag and its stability.
\<close>

record alternative =
  alt_transcript :: string

record recognition_result =
  alternatives :: "alternative list"
  result_is_final :: bool
  result_stability :: real

record response =
  results :: "recognition_result list"

type_synonym frame = string

text \<open>
  The program state: \<open>exit_event\<close> and \<open>last_speech_time\<close> are the module globals,
  \<open>buff\<close> and \<open>closed\<close> the fields of \<^verbatim>\<open>MicrophoneStream\<close>, \<open>state\<close> the local of
  \<^verbatim>\<open>handle_results\<close>, \<open>typed\<close> the arguments of \<^verbatim>\<open>keyboard.write\<close> in call order and
  \<open>printed\<close> the suffixes printed in debug mode.
\<close>

record world =
  exit_event :: bool
  last_speech_time :: real
  buff :: "frame list"
  closed :: bool
  state :: TypeState
  typed :: "string list"
  printed :: "string list"

text \<open>
  The readings of the clock while one result is handled: in the commit test (line 117),
  for \<^verbatim>\<open>last_speech_time\<close> (line 124), for \<^verbatim>\<open>last_type_time\<close> (line 145) and for the
  reset after a final result (line 148).
\<close>

record clock =
  t_decide :: real
  t_speech :: real
  t_typed :: real
  t_reset :: real

text \<open>A clock that reads \<open>t\<close> at every line.\<close>

definition at_time :: "real \<Rightarrow> clock" where
  "at_time t = \<lparr>t_decide = t, t_speech = t, t_typed = t, t_reset = t\<rparr>"

subsection \<open>Strings\<close>

text \<open>\<^verbatim>\<open>str.isspace\<close> on one character, for code points below 256.\<close>

definition isspace :: "char \<Rightarrow> bool" where
  "isspace c =
     (let n = (of_char c :: nat)
      in (9 \<le> n \<and> n \<le> 13) \<or> (28 \<le> n \<and> n \<le> 32) \<or> n = 133 \<or> n = 160)"

text \<open>\<^verbatim>\<open>str.lower\<close> on one character, for code points below 256.\<close>

definition lower :: "char \<Rightarrow> char" where
  "lower c =
     (let n = (of_char c :: nat)
      in if (65 \<le> n \<and> n \<le> 90) \<or> (192 \<le> n \<and> n \<le> 222 \<and> n \<noteq> 215)
         then char_of (n + 32) else c)"

definition lstrip :: "string \<Rightarrow> string" where
  "lstrip s = dropWhile isspace s"

definition rstrip :: "string \<Rightarrow> string" where
  "rstrip s = rev (dropWhile isspace (rev s))"

definition strip :: "string \<Rightarrow> string" where
  "strip s = rstrip (lstrip s)"

subsection \<open>The capture callback and the stream\<close>



text \<open>
  The loop of \<^verbatim>\<open>MicrophoneStream.generator\<close>: the test of line 67, and the body of
  lines 68 to 71, which yields the oldest frame if the buffer holds one.
\<close>

definition generator_test :: "world \<Rightarrow> bool" where
  "generator_test w = (\<not> closed w \<and> \<not> exit_event w)"

definition generator_body :: "world \<Rightarrow> frame option \<times> world" where
  "generator_body w =
     (case buff w of
        [] \<Rightarrow> (None, w)
      | f # fs \<Rightarrow> (Some f, w\<lparr>buff := fs\<rparr>))"

text \<open>One turn run without interruption: \<open>None\<close> when the loop has ended.\<close>

definition generator_step :: "world \<Rightarrow> (frame option \<times> world) option" where
  "generator_step w = (if generator_test w then Some (generator_body w) else None)"

definition signal_handler :: "world \<Rightarrow> world" where
  "signal_handler w = w\<lparr>exit_event := True\<rparr>"

subsection \<open>Normalising responses\<close>

text \<open>The body of the loop of \<^verbatim>\<open>process_responses\<close>, after the test of the flag.\<close>

definition process_response :: "real \<Rightarrow> response \<Rightarrow> SpeechResult" where
  "process_response now resp =
     (case results resp of
        [] \<Rightarrow> \<lparr>timestamp = now, transcript = Transcript_default\<rparr>
      | result # _ \<Rightarrow>
          (case alternatives result of
             [] \<Rightarrow> \<lparr>timestamp = now, transcript = Transcript_default\<rparr>
           | alt # _ \<Rightarrow>
               \<lparr>timestamp = now,
                transcript = \<lparr>text' = alt_transcript alt,
                              stability = result_stability result,
                              is_final = result_is_final result\<rparr>\<rparr>))"

text \<open>
  \<^verbatim>\<open>process_responses\<close>: the results yielded for the responses, each paired with the
  clock reading taken for it. The generator only reads the flag.
\<close>

fun process_responses :: "world \<Rightarrow> (real \<times> response) list \<Rightarrow> SpeechResult list" where
  "process_responses w [] = []"
| "process_responses w ((now, resp) # rest) =
     (if exit_event w then []
      else process_response now resp # process_responses w rest)"

subsection \<open>The typing engine\<close>

text \<open>
  The loop of lines 130 to 134: \<open>i\<close> is the loop variable, \<open>n\<close> the value of
  \<^verbatim>\<open>common_prefix_len\<close>.
\<close>

function prefix_loop :: "string \<Rightarrow> string \<Rightarrow> nat \<Rightarrow> nat \<Rightarrow> nat \<Rightarrow> nat" where
  "prefix_loop current_text last_text min_len i n =
     (if i < min_len
      then (if lower (current_text ! i) = lower (last_text ! i)
            then prefix_loop current_text last_text min_len (Suc i) (Suc n)
            else n)
      else n)"
  by pat_completeness auto
termination
  by (relation "measure (\<lambda>(c, l, m, i, n). m - i)") auto

declare prefix_loop.simps [simp del]

definition common_prefix_len :: "string \<Rightarrow> string \<Rightarrow> nat" where
  "common_prefix_len current_text last_text =
     prefix_loop current_text last_text (min (length current_text) (length last_text)) 0 0"

definition text_to_type :: "string \<Rightarrow> string \<Rightarrow> string" where
  "text_to_type current_text last_text =
     lstrip (drop (common_prefix_len current_text last_text) current_text)"

definition should_type :: "TypeState \<Rightarrow> clock \<Rightarrow> Transcript \<Rightarrow> bool" where
  "should_type st clk tr =
     (is_final tr \<or>
      (t_decide clk - last_type_time st \<ge> TYPE_INTERVAL \<and>
       stability tr > TYPE_STABILITY_THRESHOLD))"

text \<open>Lines 138 to 145: the branch taken when there is something to type.\<close>

definition emit :: "clock \<Rightarrow> string \<Rightarrow> string \<Rightarrow> world \<Rightarrow> world" where
  "emit clk current_text to_type w =
     (let w1 = (if DEBUG then w\<lparr>printed := printed w @ [to_type]\<rparr>
                else w\<lparr>typed := typed w @ [to_type @ '' '']\<rparr>)
      in w1\<lparr>state := \<lparr>last_type_time = t_typed clk, last_typed_text = current_text\<rparr>\<rparr>)"

text \<open>Lines 123 to 145: the body of \<^verbatim>\<open>if should_type\<close>.\<close>

definition commit :: "clock \<Rightarrow> Transcript \<Rightarrow> world \<Rightarrow> world" where
  "commit clk tr w =
     (let w1 = w\<lparr>last_speech_time := t_speech clk\<rparr>;
          current_text = strip (text' tr);
          to_type = text_to_type current_text (last_typed_text (state w1))
      in if to_type \<noteq> [] then emit clk current_text to_type w1 else w1)"

text \<open>
  Lines 111 to 148: the body of the loop of \<^verbatim>\<open>handle_results\<close> after the test of the flag.
  The reset of line 148 stands inside the test of line 111.
\<close>

definition handle_result :: "clock \<Rightarrow> SpeechResult \<Rightarrow> world \<Rightarrow> world" where
  "handle_result clk result w =
     (let tr = transcript result
      in if text' tr \<noteq> []
         then (let w1 = (if should_type (state w) clk tr then commit clk tr w else w)
               in if is_final tr then w1\<lparr>state := TypeState_at (t_reset clk)\<rparr> else w1)
         else w)"

text \<open>The loop of \<^verbatim>\<open>handle_results\<close>: the flag is read at the head of every turn.\<close>

fun handle_loop :: "(clock \<times> SpeechResult) list \<Rightarrow> world \<Rightarrow> world" where
  "handle_loop [] w = w"
| "handle_loop ((clk, result) # rest) w =
     (if exit_event w then w else handle_loop rest (handle_result clk result w))"

text \<open>\<^verbatim>\<open>handle_results\<close>: \<open>t_init\<close> is the clock reading of line 105.\<close>

definition handle_results :: "real \<Rightarrow> (clock \<times> SpeechResult) list \<Rightarrow> world \<Rightarrow> world" where
  "handle_results t_init rs w = handle_loop rs (w\<lparr>state := TypeState_at t_init\<rparr>)"

subsection \<open>The silence monitor\<close>





subsection \<open>The threads together\<close>




text \<open>The state when the threads start: the stream is open, nothing was typed.\<close>

definition init_world :: "real \<Rightarrow> world" where
  "init_world t0 =
     \<lparr>exit_event = False, last_speech_time = t0, buff = [], closed = False,
      state = TypeState_at t0, typed = [], printed = []\<rparr>"

subsection \<open>Example inputs\<close>

text \<open>A final result with no text.\<close>

definition final_empty :: SpeechResult where
  "final_empty = \<lparr>timestamp = 7, transcript = \<lparr>text' = [], stability = 1, is_final = True\<rparr>\<rparr>"

text \<open>A final result of stability 0.\<close>

definition final_unstable :: SpeechResult where
  "final_unstable = \<lparr>timestamp = 5, transcript = \<lparr>text' = ''ok'', stability = 0, is_final = True\<rparr>\<rparr>"

text \<open>A response with no result, one whose first result has no alternative, and one with text.\<close>

definition resp_none :: response where
  "resp_none = \<lparr>results = []\<rparr>"

definition resp_no_alternative :: response where
  "resp_no_alternative =
     \<lparr>results = [\<lparr>alternatives = [], result_is_final = True, result_stability = 1 / 2\<rparr>]\<rparr>"

definition resp_hello :: response where
  "resp_hello =
     \<lparr>results = [\<lparr>alternatives = [\<lparr>alt_transcript = ''hello''\<rparr>, \<lparr>alt_transcript = ''hallo''\<rparr>],
                   result_is_final = True, result_stability = 9 / 10\<rparr>,
                 \<lparr>alternatives = [\<lparr>alt_transcript = ''world''\<rparr>],
                   result_is_final = False, result_stability = 1 / 10\<rparr>]\<rparr>"

text \<open>Partial results of stability 0.9 and final results of stability 0.95.\<close>

definition partial :: "string \<Rightarrow> SpeechResult" where
  "partial s = \<lparr>timestamp = 0, transcript = \<lparr>text' = s, stability = 9 / 10, is_final = False\<rparr>\<rparr>"

definition final :: "string \<Rightarrow> SpeechResult" where
  "final s = \<lparr>timestamp = 0, transcript = \<lparr>text' = s, stability = 95 / 100, is_final = True\<rparr>\<rparr>"

text \<open>The end-to-end example of the specification: three results, at 0, 1.1 and 1.2 s.\<close>

definition example_results :: "(clock \<times> SpeechResult) list" where
  "example_results =
     [(at_time 0, partial ''hell''),
      (at_time (11 / 10), partial ''hello world''),
      (at_time (12 / 10), final ''hello world.'')]"

subsection \<open>Runs of one utterance\<close>

text \<open>
  Notions used to state properties of a run of the loop. The candidate texts are what
  line 126 computes for the results.
\<close>

definition candidates :: "(clock \<times> SpeechResult) list \<Rightarrow> string list" where
  "candidates rs = map (\<lambda>(clk, r). strip (text' (transcript r))) rs"

text \<open>Each text extends the one before it, case-insensitively, starting from \<open>b\<close>.\<close>

fun extends :: "string \<Rightarrow> string list \<Rightarrow> bool" where
  "extends b [] = True"
| "extends b (c # cs) = (prefix (map lower b) (map lower c) \<and> extends c cs)"

text \<open>What each text has beyond the length of the one before it.\<close>

fun increments :: "string \<Rightarrow> string list \<Rightarrow> string list" where
  "increments b [] = []"
| "increments b (c # cs) = drop (length b) c # increments c cs"

text \<open>
  Every result of the run has text and passes the commit test in the state it meets,
  and only the last may be final: the results of one utterance, all committed.
\<close>

fun all_committed :: "(clock \<times> SpeechResult) list \<Rightarrow> world \<Rightarrow> bool" where
  "all_committed [] w = True"
| "all_committed ((clk, r) # rest) w =
     (text' (transcript r) \<noteq> [] \<and> should_type (state w) clk (transcript r) \<and>
      (if is_final (transcript r) then rest = []
       else all_committed rest (handle_result clk r w)))"




text \<open>An utterance that grows and changes case on the way.\<close>

definition growing_results :: "(clock \<times> SpeechResult) list" where
  "growing_results =
     [(at_time 2, partial ''Hi''),
      (at_time 4, partial ''hi there''),
      (at_time 5, final ''HI THERE you'')]"

section \<open>Strings and the common prefix\<close>

lemma isspace_lower: "isspace (lower c) = isspace c"
proof -
  have "of_char (char_of (of_char c + 32 :: nat)) = ((of_char c + 32) mod 256 :: nat)"
    by (rule of_char_of)
  then show ?thesis
    by (auto simp: isspace_def lower_def Let_def)
qed

lemma lstrip_idem: "lstrip (lstrip s) = lstrip s"
  by (simp add: lstrip_def)

lemma rstrip_Cons:
  "rstrip (c # s) = (if isspace c \<and> rstrip s = [] then [] else c # rstrip s)"
proof (cases "\<forall>x\<in>set s. isspace x")
  case True
  then have "rstrip s = []" by (simp add: rstrip_def)
  moreover have "dropWhile isspace (rev s @ [c]) = dropWhile isspace [c]"
    by (rule dropWhile_append2) (use True in auto)
  then have "rstrip (c # s) = rev (dropWhile isspace [c])"
    by (simp add: rstrip_def)
  ultimately show ?thesis by simp
next
  case False
  then have "rstrip s \<noteq> []" by (simp add: rstrip_def)
  moreover have "dropWhile isspace (rev s @ [c]) = dropWhile isspace (rev s) @ [c]"
    using False by (auto simp: dropWhile_append1)
  ultimately show ?thesis by (simp add: rstrip_def)
qed

lemma lstrip_rstrip: "lstrip (rstrip s) = rstrip (lstrip s)"
proof (induction s)
  case Nil
  show ?case by (simp add: lstrip_def rstrip_def)
next
  case (Cons c s)
  show ?case
  proof (cases "isspace c")
    case True
    have "lstrip (rstrip (c # s)) = lstrip (rstrip s)"
      using True by (simp add: rstrip_Cons lstrip_def)
    also have "\<dots> = rstrip (lstrip s)" by (rule Cons.IH)
    also have "\<dots> = rstrip (lstrip (c # s))"
      using True by (simp add: lstrip_def)
    finally show ?thesis .
  next
    case False
    then show ?thesis by (simp add: rstrip_Cons lstrip_def)
  qed
qed

lemma lstrip_strip: "lstrip (strip s) = strip s"
  by (simp add: strip_def lstrip_rstrip lstrip_idem)

lemma rstrip_last: "rstrip s \<noteq> [] \<Longrightarrow> \<not> isspace (last (rstrip s))"
  unfolding rstrip_def by (simp add: last_rev hd_dropWhile)

lemma strip_last: "strip s \<noteq> [] \<Longrightarrow> \<not> isspace (last (strip s))"
  unfolding strip_def by (rule rstrip_last)

lemma lstrip_eq_Nil: "lstrip s = [] \<longleftrightarrow> (\<forall>x\<in>set s. isspace x)"
  by (simp add: lstrip_def dropWhile_eq_Nil_conv)

lemma lstrip_drop_strip: "lstrip (drop k (strip s)) = [] \<longleftrightarrow> length (strip s) \<le> k"
proof
  assume a: "lstrip (drop k (strip s)) = []"
  show "length (strip s) \<le> k"
  proof (rule ccontr)
    assume "\<not> length (strip s) \<le> k"
    then have ne: "drop k (strip s) \<noteq> []" by simp
    then have "last (drop k (strip s)) = last (strip s)" by simp
    moreover have "strip s \<noteq> []" using ne by auto
    ultimately have "\<not> isspace (last (drop k (strip s)))" by (simp add: strip_last)
    moreover have "last (drop k (strip s)) \<in> set (drop k (strip s))"
      by (rule last_in_set [OF ne])
    ultimately show False using a by (auto simp: lstrip_eq_Nil)
  qed
next
  assume "length (strip s) \<le> k"
  then show "lstrip (drop k (strip s)) = []" by (simp add: lstrip_def)
qed

lemma prefix_loop_zip:
  "i \<le> length (zip c l) \<Longrightarrow>
   prefix_loop c l (length (zip c l)) i n =
     n + length (takeWhile (\<lambda>(a, b). lower a = lower b) (drop i (zip c l)))"
proof (induction c l "length (zip c l)" i n rule: prefix_loop.induct)
  case (1 c l i n)
  show ?case
  proof (cases "i < length (zip c l)")
    case True
    have d: "drop i (zip c l) = (c ! i, l ! i) # drop (Suc i) (zip c l)"
      using True by (metis Cons_nth_drop_Suc nth_zip length_zip min_less_iff_conj)
    show ?thesis
    proof (cases "lower (c ! i) = lower (l ! i)")
      case eq: True
      have "prefix_loop c l (length (zip c l)) i n = prefix_loop c l (length (zip c l)) (Suc i) (Suc n)"
        using True eq by (subst prefix_loop.simps) simp
      also have "\<dots> = Suc n + length (takeWhile (\<lambda>(a, b). lower a = lower b) (drop (Suc i) (zip c l)))"
        using "1.hyps" True eq by simp
      finally show ?thesis using d eq by simp
    next
      case False
      have "prefix_loop c l (length (zip c l)) i n = n"
        using True False by (subst prefix_loop.simps) simp
      then show ?thesis using d False by simp
    qed
  next
    case False
    have "prefix_loop c l (length (zip c l)) i n = n"
      using False by (subst prefix_loop.simps) auto
    moreover have "drop i (zip c l) = []"
      using False by auto
    ultimately show ?thesis by simp
  qed
qed

lemma common_prefix_len_zip:
  "common_prefix_len c l = length (takeWhile (\<lambda>(a, b). lower a = lower b) (zip c l))"
  using prefix_loop_zip [of 0 c l 0] by (simp add: common_prefix_len_def)

lemma takeWhile_zip_prefix:
  "prefix (map lower l) (map lower c) \<Longrightarrow>
   length (takeWhile (\<lambda>(a, b). lower a = lower b) (zip c l)) = length l"
proof (induction l arbitrary: c)
  case Nil
  show ?case by simp
next
  case (Cons x l)
  then show ?case by (cases c) auto
qed

lemma common_prefix_len_prefix:
  "prefix (map lower l) (map lower c) \<Longrightarrow> common_prefix_len c l = length l"
  by (simp add: common_prefix_len_zip takeWhile_zip_prefix)

lemma takeWhile_zip_prefix':
  "prefix (map lower c) (map lower l) \<Longrightarrow>
   length (takeWhile (\<lambda>(a, b). lower a = lower b) (zip c l)) = length c"
proof (induction c arbitrary: l)
  case Nil
  show ?case by simp
next
  case (Cons x c)
  then show ?case by (cases l) auto
qed

lemma common_prefix_len_shorter:
  "prefix (map lower c) (map lower l) \<Longrightarrow> common_prefix_len c l = length c"
  by (simp add: common_prefix_len_zip takeWhile_zip_prefix')

lemma common_prefix_len_Nil: "common_prefix_len c [] = 0"
  by (simp add: common_prefix_len_zip)

lemma text_to_type_Nil: "text_to_type (strip s) [] = strip s"
  by (simp add: text_to_type_def common_prefix_len_Nil lstrip_strip)

section \<open>One result\<close>

lemma commit_unfold:
  "commit clk tr w =
     (if text_to_type (strip (text' tr)) (last_typed_text (state w)) \<noteq> []
      then w\<lparr>last_speech_time := t_speech clk,
             typed := typed w @ [text_to_type (strip (text' tr)) (last_typed_text (state w)) @ '' ''],
             state := \<lparr>last_type_time = t_typed clk, last_typed_text = strip (text' tr)\<rparr>\<rparr>
      else w\<lparr>last_speech_time := t_speech clk\<rparr>)"
  by (simp add: commit_def emit_def DEBUG_def Let_def)

lemma commit_last_speech_time: "last_speech_time (commit clk tr w) = t_speech clk"
  by (simp add: commit_unfold)

lemma commit_printed: "printed (commit clk tr w) = printed w"
  by (simp add: commit_unfold)

lemma commit_flag: "exit_event (commit clk tr w) = exit_event w"
  by (simp add: commit_unfold)


lemma handle_result_empty_text: "text' (transcript r) = [] \<Longrightarrow> handle_result clk r w = w"
  by (simp add: handle_result_def)



lemma handle_result_printed: "printed (handle_result clk r w) = printed w"
  by (simp add: handle_result_def Let_def commit_printed)

lemma handle_result_typed:
  "typed (handle_result clk r w) =
     (if text' (transcript r) \<noteq> [] \<and> should_type (state w) clk (transcript r)
      then typed (commit clk (transcript r) w) else typed w)"
  by (simp add: handle_result_def Let_def)

lemma handle_result_last_speech_time:
  "last_speech_time (handle_result clk r w) =
     (if text' (transcript r) \<noteq> [] \<and> should_type (state w) clk (transcript r)
      then t_speech clk else last_speech_time w)"
  by (simp add: handle_result_def Let_def commit_last_speech_time)

lemma handle_loop_flag_set: "exit_event w \<Longrightarrow> handle_loop rs w = w"
  by (cases rs) auto

text \<open>
  C10: a result whose text is empty leaves the whole state as it was, the typing state
  included, and types nothing, whether it is final or not: the reset after a final
  result is not reached. The loop goes on as if the result had not come.
\<close>

theorem empty_text_leaves_everything:
  "text' (transcript r) = [] \<Longrightarrow>
     handle_result clk r w = w \<and> handle_loop ((clk, r) # rest) w = handle_loop rest w"
  by (simp add: handle_result_empty_text handle_loop_flag_set)

theorem empty_text_leaves_everything_witness:
  "text' (transcript final_empty) = [] \<and> is_final (transcript final_empty) \<and>
   state (handle_result (at_time 7) final_empty
      ((init_world 0)\<lparr>state := \<lparr>last_type_time = 2, last_typed_text = ''hello''\<rparr>\<rparr>)) =
     \<lparr>last_type_time = 2, last_typed_text = ''hello''\<rparr>"
  using empty_text_leaves_everything [of final_empty "at_time 7"
      "(init_world 0)\<lparr>state := \<lparr>last_type_time = 2, last_typed_text = ''hello''\<rparr>\<rparr>" "[]"]
  by (simp add: final_empty_def)

lemma should_type_unfold:
  "should_type st clk tr =
     (is_final tr \<or> (t_decide clk - last_type_time st \<ge> 1 \<and> stability tr > 7 / 10))"
  by (simp add: should_type_def TYPE_INTERVAL_def TYPE_STABILITY_THRESHOLD_def)

lemma handle_result_final:
  "text' (transcript r) \<noteq> [] \<Longrightarrow> is_final (transcript r) \<Longrightarrow>
     handle_result clk r w = (commit clk (transcript r) w)\<lparr>state := TypeState_at (t_reset clk)\<rparr>"
  by (simp add: handle_result_def should_type_def)

lemma strip_ok: "strip ''ok'' = ''ok''"
  by code_simp

text \<open>
  C4: for a result with text, the commit test is: final, or at least 1.0 s since
  \<open>last_type_time\<close> and stability above 0.7. The commit branch is taken exactly then (it
  writes \<open>last_speech_time\<close> and types what \<open>commit\<close> types); a final result takes it
  whatever the clock and the stability are.
\<close>

theorem commit_decision:
  "text' (transcript r) \<noteq> [] \<Longrightarrow>
     should_type (state w) clk (transcript r) =
       (is_final (transcript r) \<or>
        (t_decide clk - last_type_time (state w) \<ge> 1 \<and> stability (transcript r) > 7 / 10)) \<and>
     last_speech_time (handle_result clk r w) =
       (if is_final (transcript r) \<or>
           (t_decide clk - last_type_time (state w) \<ge> 1 \<and> stability (transcript r) > 7 / 10)
        then t_speech clk else last_speech_time w) \<and>
     typed (handle_result clk r w) =
       (if is_final (transcript r) \<or>
           (t_decide clk - last_type_time (state w) \<ge> 1 \<and> stability (transcript r) > 7 / 10)
        then typed (commit clk (transcript r) w) else typed w) \<and>
     (is_final (transcript r) \<longrightarrow>
        handle_result clk r w = (commit clk (transcript r) w)\<lparr>state := TypeState_at (t_reset clk)\<rparr>)"
  using handle_result_final [of r clk w]
  by (simp add: handle_result_last_speech_time handle_result_typed should_type_unfold)

theorem commit_decision_witness:
  "text' (transcript final_unstable) \<noteq> [] \<and>
   is_final (transcript final_unstable) \<and> stability (transcript final_unstable) = 0 \<and>
   last_speech_time (handle_result (at_time 5) final_unstable (init_world 5)) = 5 \<and>
   typed (handle_result (at_time 5) final_unstable (init_world 5)) = [''ok '']"
proof -
  have h: "text' (transcript final_unstable) \<noteq> []"
    by (simp add: final_unstable_def)
  have c: "typed (commit (at_time 5) (transcript final_unstable) (init_world 5)) = [''ok '']"
    using text_to_type_Nil [of "''ok''"]
    by (simp add: commit_unfold final_unstable_def init_world_def TypeState_at_def strip_ok)
  show ?thesis
    using commit_decision [OF h, of "init_world 5" "at_time 5"] c
    by (simp add: final_unstable_def at_time_def commit_last_speech_time)
qed

section \<open>Normalisation\<close>

lemma process_responses_map:
  "\<not> exit_event w \<Longrightarrow>
     process_responses w rs = map (\<lambda>(now, resp). process_response now resp) rs"
  by (induction rs) auto

text \<open>
  C9: unless the flag stops the loop, every response yields exactly one result, stamped
  with the clock reading taken for it. A response with no result, or whose first
  result has no alternative, yields the empty hypothesis (no text, stability 0, not
  final), and handling that result changes nothing. Otherwise the result carries the
  text of the first alternative of the first result, and that result's finality and
  stability.
\<close>

theorem normalisation:
  "(\<not> exit_event w \<longrightarrow>
      length (process_responses w rs) = length rs \<and>
      process_responses w rs = map (\<lambda>(now, resp). process_response now resp) rs) \<and>
   timestamp (process_response now resp) = now \<and>
   (results resp = [] \<or> (\<exists>res more. results resp = res # more \<and> alternatives res = []) \<longrightarrow>
      transcript (process_response now resp) = \<lparr>text' = [], stability = 0, is_final = False\<rparr> \<and>
      handle_result clk (process_response now resp) w = w) \<and>
   (\<forall>res more alt alts. results resp = res # more \<and> alternatives res = alt # alts \<longrightarrow>
      transcript (process_response now resp) =
        \<lparr>text' = alt_transcript alt, stability = result_stability res,
         is_final = result_is_final res\<rparr>)"
proof -
  have one: "\<not> exit_event w \<longrightarrow>
      length (process_responses w rs) = length rs \<and>
      process_responses w rs = map (\<lambda>(now, resp). process_response now resp) rs"
    by (simp add: process_responses_map)
  have stamp: "timestamp (process_response now resp) = now"
    by (simp add: process_response_def split: list.splits)
  have none: "results resp = [] \<or> (\<exists>res more. results resp = res # more \<and> alternatives res = []) \<longrightarrow>
      transcript (process_response now resp) = \<lparr>text' = [], stability = 0, is_final = False\<rparr> \<and>
      handle_result clk (process_response now resp) w = w"
    by (auto simp: process_response_def Transcript_default_def handle_result_empty_text)
  have some: "\<forall>res more alt alts. results resp = res # more \<and> alternatives res = alt # alts \<longrightarrow>
      transcript (process_response now resp) =
        \<lparr>text' = alt_transcript alt, stability = result_stability res,
         is_final = result_is_final res\<rparr>"
    by (simp add: process_response_def)
  from one stamp none some show ?thesis by blast
qed

theorem normalisation_witness:
  "\<not> exit_event (init_world 0) \<and>
   length (process_responses (init_world 0) [(1, resp_none), (2, resp_no_alternative), (3, resp_hello)]) = 3 \<and>
   transcript (process_response 1 resp_none) = \<lparr>text' = [], stability = 0, is_final = False\<rparr> \<and>
   transcript (process_response 2 resp_no_alternative) = \<lparr>text' = [], stability = 0, is_final = False\<rparr> \<and>
   handle_result (at_time 2) (process_response 2 resp_no_alternative) (init_world 0) = init_world 0 \<and>
   transcript (process_response 3 resp_hello) = \<lparr>text' = ''hello'', stability = 9 / 10, is_final = True\<rparr>"
proof -
  have flag: "\<not> exit_event (init_world 0)"
    by (simp add: init_world_def)
  have a: "results resp_none = []"
    by (simp add: resp_none_def)
  have b: "\<exists>res more. results resp_no_alternative = res # more \<and> alternatives res = []"
    by (simp add: resp_no_alternative_def)
  have c: "results resp_hello =
       \<lparr>alternatives = [\<lparr>alt_transcript = ''hello''\<rparr>, \<lparr>alt_transcript = ''hallo''\<rparr>],
        result_is_final = True, result_stability = 9 / 10\<rparr> #
       [\<lparr>alternatives = [\<lparr>alt_transcript = ''world''\<rparr>],
         result_is_final = False, result_stability = 1 / 10\<rparr>] \<and>
     alternatives \<lparr>alternatives = [\<lparr>alt_transcript = ''hello''\<rparr>, \<lparr>alt_transcript = ''hallo''\<rparr>],
        result_is_final = True, result_stability = 9 / 10\<rparr> =
       \<lparr>alt_transcript = ''hello''\<rparr> # [\<lparr>alt_transcript = ''hallo''\<rparr>]"
    by (simp add: resp_hello_def)
  have l: "length (process_responses (init_world 0) [(1, resp_none), (2, resp_no_alternative), (3, resp_hello)]) = 3"
    using normalisation [of "init_world 0" "[(1, resp_none), (2, resp_no_alternative), (3, resp_hello)]"] flag
    by simp
  have n1: "transcript (process_response 1 resp_none) = \<lparr>text' = [], stability = 0, is_final = False\<rparr>"
    using normalisation [of _ _ 1 resp_none] a by blast
  have n2: "transcript (process_response 2 resp_no_alternative) = \<lparr>text' = [], stability = 0, is_final = False\<rparr> \<and>
      handle_result (at_time 2) (process_response 2 resp_no_alternative) (init_world 0) = init_world 0"
    using normalisation [of "init_world 0" _ 2 resp_no_alternative "at_time 2"] b by blast
  have n3: "transcript (process_response 3 resp_hello) = \<lparr>text' = ''hello'', stability = 9 / 10, is_final = True\<rparr>"
    using normalisation [of _ _ 3 resp_hello] c by fastforce
  from flag l n1 n2 n3 show ?thesis by blast
qed

section \<open>Examples, evaluated\<close>

lemma at_time_fields:
  "t_decide (at_time t) = t" "t_speech (at_time t) = t"
  "t_typed (at_time t) = t" "t_reset (at_time t) = t"
  by (simp_all add: at_time_def)

lemma strip_hello: "strip ''hello'' = ''hello''"
  by code_simp

lemma strip_hello_world: "strip ''hello world'' = ''hello world''"
  by code_simp

lemma strip_hi: "strip ''hi'' = ''hi''"
  by code_simp

lemma diff_hello_hello: "text_to_type ''hello'' ''hello'' = []"
  by code_simp

lemma diff_hello_hello_world: "text_to_type ''hello'' ''hello world'' = []"
  by code_simp

lemma handle_partial_commit:
  "1 \<le> t - last_type_time (state w) \<Longrightarrow> s \<noteq> [] \<Longrightarrow>
     handle_result (at_time t) (partial s) w =
       commit (at_time t) \<lparr>text' = s, stability = 9 / 10, is_final = False\<rparr> w"
  by (simp add: handle_result_def partial_def should_type_unfold at_time_fields)

lemma first_hello:
  "handle_result (at_time 2) (partial ''hello'') (init_world 0) =
     (init_world 0)\<lparr>last_speech_time := 2, typed := [''hello ''],
        state := \<lparr>last_type_time = 2, last_typed_text = ''hello''\<rparr>\<rparr>"
  using text_to_type_Nil [of "''hello''"]
  by (simp add: handle_partial_commit init_world_def TypeState_at_def commit_unfold strip_hello at_time_fields)

lemma second_hello:
  "handle_result (at_time 4) (partial ''hello'')
     (handle_result (at_time 2) (partial ''hello'') (init_world 0)) =
     (init_world 0)\<lparr>last_speech_time := 4, typed := [''hello ''],
        state := \<lparr>last_type_time = 2, last_typed_text = ''hello''\<rparr>\<rparr>"
  by (simp add: first_hello handle_partial_commit commit_unfold strip_hello diff_hello_hello at_time_fields)

section \<open>The activity timestamp\<close>

text \<open>
  C8, as the code has it: the timestamp is written on every result that passes the
  commit test (text not empty, then final, or interval and stability met), whether or
  not the diff leaves a suffix to type. A result with no text or one that fails the
  test leaves it unchanged, and so does the loop once the flag is set.
\<close>

theorem activity_written_by_commit_test:
  "last_speech_time (handle_result clk r w) =
     (if text' (transcript r) \<noteq> [] \<and> should_type (state w) clk (transcript r)
      then t_speech clk else last_speech_time w) \<and>
   (exit_event w \<longrightarrow> last_speech_time (handle_loop rs w) = last_speech_time w)"
  by (simp add: handle_result_last_speech_time handle_loop_flag_set)

theorem activity_written_by_commit_test_witness:
  "exit_event (signal_handler (init_world 0)) \<and>
   last_speech_time (handle_loop [(at_time 2, partial ''hello'')] (signal_handler (init_world 0))) = 0 \<and>
   last_speech_time (handle_result (at_time (1 / 2)) (partial ''hello'') (init_world 0)) = 0 \<and>
   last_speech_time (handle_result (at_time 2) (partial ''hello'') (init_world 0)) = 2"
proof -
  have f: "exit_event (signal_handler (init_world 0))"
    by (simp add: signal_handler_def)
  have a: "last_speech_time (handle_loop [(at_time 2, partial ''hello'')] (signal_handler (init_world 0))) = 0"
    using activity_written_by_commit_test [of _ _ "signal_handler (init_world 0)" "[(at_time 2, partial ''hello'')]"] f
    by (simp add: signal_handler_def init_world_def)
  have b: "last_speech_time (handle_result (at_time (1 / 2)) (partial ''hello'') (init_world 0)) = 0"
    using activity_written_by_commit_test [of "at_time (1 / 2)" "partial ''hello''" "init_world 0"]
    by (simp add: should_type_unfold partial_def at_time_fields init_world_def TypeState_at_def)
  have c: "last_speech_time (handle_result (at_time 2) (partial ''hello'') (init_world 0)) = 2"
    using activity_written_by_commit_test [of "at_time 2" "partial ''hello''" "init_world 0"]
    by (simp add: should_type_unfold partial_def at_time_fields init_world_def TypeState_at_def)
  from f a b c show ?thesis by blast
qed

text \<open>
  The claim fails where a committed result repeats the text already typed: nothing is
  typed for the second \<open>hello\<close>, and the timestamp moves from 2 to 4.
\<close>

theorem activity_without_typing_counterexample:
  "typed (handle_result (at_time 4) (partial ''hello'')
      (handle_result (at_time 2) (partial ''hello'') (init_world 0))) =
     typed (handle_result (at_time 2) (partial ''hello'') (init_world 0)) \<and>
   last_speech_time (handle_result (at_time 2) (partial ''hello'') (init_world 0)) = 2 \<and>
   last_speech_time (handle_result (at_time 4) (partial ''hello'')
      (handle_result (at_time 2) (partial ''hello'') (init_world 0))) = 4"
  by (simp add: second_hello) (simp add: first_hello)

section \<open>More examples, evaluated\<close>

lemma lower_hello: "map lower ''hello'' = ''hello''"
  by code_simp

lemma lower_hello_world: "map lower ''hello world'' = ''hello world''"
  by code_simp

lemma first_hello_world:
  "handle_result (at_time 2) (partial ''hello world'') (init_world 0) =
     (init_world 0)\<lparr>last_speech_time := 2, typed := [''hello world ''],
        state := \<lparr>last_type_time = 2, last_typed_text = ''hello world''\<rparr>\<rparr>"
  using text_to_type_Nil [of "''hello world''"]
  by (simp add: handle_partial_commit init_world_def TypeState_at_def commit_unfold
      strip_hello_world at_time_fields)

lemma then_hello:
  "handle_result (at_time 4) (partial ''hello'')
     (handle_result (at_time 2) (partial ''hello world'') (init_world 0)) =
     (init_world 0)\<lparr>last_speech_time := 4, typed := [''hello world ''],
        state := \<lparr>last_type_time = 2, last_typed_text = ''hello world''\<rparr>\<rparr>"
  by (simp add: first_hello_world handle_partial_commit commit_unfold strip_hello
      diff_hello_hello_world at_time_fields)

lemma handle_final_commit:
  "s \<noteq> [] \<Longrightarrow>
     handle_result (at_time t) (final s) w =
       (commit (at_time t) \<lparr>text' = s, stability = 95 / 100, is_final = True\<rparr> w)
         \<lparr>state := TypeState_at t\<rparr>"
  by (simp add: handle_result_def final_def should_type_unfold at_time_fields)

lemma first_hi:
  "handle_result (at_time 2) (final ''hi'') (init_world 0) =
     (init_world 0)\<lparr>last_speech_time := 2, typed := [''hi ''], state := TypeState_at 2\<rparr>"
  using text_to_type_Nil [of "''hi''"]
  by (simp add: handle_final_commit init_world_def TypeState_at_def commit_unfold strip_hi at_time_fields)

lemma second_hi:
  "handle_result (at_time 3) (final ''hi'') (handle_result (at_time 2) (final ''hi'') (init_world 0)) =
     (init_world 0)\<lparr>last_speech_time := 3, typed := [''hi '', ''hi ''], state := TypeState_at 3\<rparr>"
  using text_to_type_Nil [of "''hi''"]
  by (simp add: first_hi handle_final_commit init_world_def TypeState_at_def commit_unfold strip_hi at_time_fields)

section \<open>A shorter candidate\<close>

lemma commit_shorter:
  assumes "prefix (map lower (strip (text' tr))) (map lower (last_typed_text (state w)))"
  shows "commit clk tr w = w\<lparr>last_speech_time := t_speech clk\<rparr>"
proof -
  have "common_prefix_len (strip (text' tr)) (last_typed_text (state w)) = length (strip (text' tr))"
    using assms by (rule common_prefix_len_shorter)
  then have "text_to_type (strip (text' tr)) (last_typed_text (state w)) = []"
    by (simp add: text_to_type_def lstrip_def)
  then show ?thesis by (simp add: commit_unfold)
qed

text \<open>
  C2, as the code has it: when the committed text is a strict case-insensitive prefix of
  the text typed last, nothing is typed and the typing state is not written: the
  baseline stays the longer text (line 144 stands under the test of line 138). Only a
  final result changes the state, by the reset that follows.
\<close>

theorem shorter_candidate_keeps_baseline:
  assumes "text' (transcript r) \<noteq> []"
    and "should_type (state w) clk (transcript r)"
    and "strict_prefix (map lower (strip (text' (transcript r))))
           (map lower (last_typed_text (state w)))"
  shows "typed (handle_result clk r w) = typed w \<and>
         printed (handle_result clk r w) = printed w \<and>
         state (handle_result clk r w) =
           (if is_final (transcript r) then TypeState_at (t_reset clk) else state w)"
proof -
  have "prefix (map lower (strip (text' (transcript r)))) (map lower (last_typed_text (state w)))"
    using assms(3) by (simp add: strict_prefix_def)
  then have "commit clk (transcript r) w = w\<lparr>last_speech_time := t_speech clk\<rparr>"
    by (rule commit_shorter)
  then show ?thesis
    using assms(1,2) by (simp add: handle_result_def Let_def)
qed

theorem shorter_candidate_keeps_baseline_witness:
  "text' (transcript (partial ''hello'')) \<noteq> [] \<and>
   should_type (state (handle_result (at_time 2) (partial ''hello world'') (init_world 0)))
     (at_time 4) (transcript (partial ''hello'')) \<and>
   strict_prefix (map lower (strip (text' (transcript (partial ''hello'')))))
     (map lower (last_typed_text (state (handle_result (at_time 2) (partial ''hello world'') (init_world 0))))) \<and>
   state (handle_result (at_time 4) (partial ''hello'')
       (handle_result (at_time 2) (partial ''hello world'') (init_world 0))) =
     state (handle_result (at_time 2) (partial ''hello world'') (init_world 0))"
proof -
  have a: "text' (transcript (partial ''hello'')) \<noteq> []"
    by (simp add: partial_def)
  have b: "should_type (state (handle_result (at_time 2) (partial ''hello world'') (init_world 0)))
     (at_time 4) (transcript (partial ''hello''))"
    unfolding first_hello_world
    by (simp add: should_type_unfold partial_def at_time_fields)
  have c: "strict_prefix (map lower (strip (text' (transcript (partial ''hello'')))))
     (map lower (last_typed_text (state (handle_result (at_time 2) (partial ''hello world'') (init_world 0)))))"
    unfolding first_hello_world
    by (simp add: partial_def strip_hello lower_hello lower_hello_world strict_prefix_def)
  show ?thesis
    using shorter_candidate_keeps_baseline [OF a b c] a b c
    by (simp add: partial_def)
qed

text \<open>
  The claim fails for \<open>hello\<close> committed after \<open>hello world\<close>: nothing is typed, and the
  baseline is still \<open>hello world\<close>.
\<close>

theorem shorter_candidate_counterexample:
  "should_type (state (handle_result (at_time 2) (partial ''hello world'') (init_world 0)))
     (at_time 4) (transcript (partial ''hello'')) \<and>
   typed (handle_result (at_time 4) (partial ''hello'')
       (handle_result (at_time 2) (partial ''hello world'') (init_world 0))) =
     typed (handle_result (at_time 2) (partial ''hello world'') (init_world 0)) \<and>
   last_typed_text (state (handle_result (at_time 4) (partial ''hello'')
       (handle_result (at_time 2) (partial ''hello world'') (init_world 0)))) = ''hello world'' \<and>
   last_typed_text (state (handle_result (at_time 4) (partial ''hello'')
       (handle_result (at_time 2) (partial ''hello world'') (init_world 0)))) \<noteq> ''hello''"
proof -
  have "should_type (state (handle_result (at_time 2) (partial ''hello world'') (init_world 0)))
     (at_time 4) (transcript (partial ''hello''))"
    unfolding first_hello_world
    by (simp add: should_type_unfold partial_def at_time_fields)
  moreover have "typed (handle_result (at_time 2) (partial ''hello world'') (init_world 0)) =
      [''hello world '']"
    by (simp add: first_hello_world)
  ultimately show ?thesis
    by (simp add: then_hello)
qed

section \<open>Two final results with the same text\<close>

text \<open>
  C3, as the code has it: a final result with text is diffed against the baseline it
  finds and the typing state is reset after that, so it leaves an empty baseline. A
  second final result with the same text is diffed against the empty baseline and its
  whole stripped text is typed again (nothing only when the stripped text is empty).
\<close>

theorem repeated_final_is_typed_again:
  assumes "text' (transcript r) \<noteq> []" and "is_final (transcript r)"
  shows "typed (handle_result c1 r w) = typed (commit c1 (transcript r) w) \<and>
         state (handle_result c1 r w) = TypeState_at (t_reset c1) \<and>
         typed (handle_result c2 r (handle_result c1 r w)) =
           typed (handle_result c1 r w) @
             (if strip (text' (transcript r)) = [] then []
              else [strip (text' (transcript r)) @ '' ''])"
proof -
  have one: "handle_result c1 r w = (commit c1 (transcript r) w)\<lparr>state := TypeState_at (t_reset c1)\<rparr>"
    using assms by (rule handle_result_final)
  have two: "handle_result c2 r (handle_result c1 r w) =
      (commit c2 (transcript r) (handle_result c1 r w))\<lparr>state := TypeState_at (t_reset c2)\<rparr>"
    using assms by (rule handle_result_final)
  have base: "last_typed_text (state (handle_result c1 r w)) = []"
    by (simp add: one TypeState_at_def)
  have "typed (commit c2 (transcript r) (handle_result c1 r w)) =
      typed (handle_result c1 r w) @
        (if strip (text' (transcript r)) = [] then [] else [strip (text' (transcript r)) @ '' ''])"
    by (simp add: commit_unfold base text_to_type_Nil)
  then show ?thesis
    by (simp add: two) (simp add: one)
qed

theorem repeated_final_is_typed_again_witness:
  "text' (transcript (final ''hi'')) \<noteq> [] \<and> is_final (transcript (final ''hi'')) \<and>
   typed (handle_result (at_time 3) (final ''hi'') (handle_result (at_time 2) (final ''hi'') (init_world 0))) =
     typed (handle_result (at_time 2) (final ''hi'') (init_world 0)) @ [''hi '']"
proof -
  have a: "text' (transcript (final ''hi'')) \<noteq> []" and b: "is_final (transcript (final ''hi''))"
    by (simp_all add: final_def)
  show ?thesis
    using repeated_final_is_typed_again [OF a b, of "at_time 2" "init_world 0" "at_time 3"] a b
    by (simp add: final_def strip_hi)
qed

text \<open>The claim fails for \<open>hi\<close> sent final twice: it is typed twice.\<close>

theorem repeated_final_counterexample:
  "typed (handle_result (at_time 2) (final ''hi'') (init_world 0)) = [''hi ''] \<and>
   typed (handle_result (at_time 3) (final ''hi'')
      (handle_result (at_time 2) (final ''hi'') (init_world 0))) = [''hi '', ''hi '']"
  by (simp add: second_hi) (simp add: first_hi)

section \<open>The end-to-end example\<close>

lemma strip_hell: "strip ''hell'' = ''hell''"
  by code_simp

lemma strip_hello_world_dot: "strip ''hello world.'' = ''hello world.''"
  by code_simp

lemma diff_hell: "text_to_type ''hello world'' ''hell'' = ''o world''"
  by code_simp

lemma diff_dot: "text_to_type ''hello world.'' ''hello world'' = ''.''"
  by code_simp

lemma diff_hell_Nil: "text_to_type ''hell'' [] = ''hell''"
  by code_simp

lemma diff_hello_world_Nil: "text_to_type ''hello world'' [] = ''hello world''"
  by code_simp

lemma diff_dot_Nil: "text_to_type ''hello world.'' [] = ''hello world.''"
  by code_simp

lemma handle_partial_throttled:
  "\<not> 1 \<le> t - last_type_time (state w) \<Longrightarrow> handle_result (at_time t) (partial s) w = w"
  by (simp add: handle_result_def partial_def should_type_unfold at_time_fields Let_def)

lemmas example_simps =
  handle_partial_commit handle_partial_throttled handle_final_commit commit_unfold
  at_time_fields TypeState_at_def strip_hell strip_hello_world strip_hello_world_dot
  diff_hell diff_dot diff_hell_Nil diff_hello_world_Nil diff_dot_Nil

lemma example_early:
  "\<not> exit_event w \<Longrightarrow> t_init \<le> - 1 \<Longrightarrow>
     typed (handle_results t_init example_results w) = typed w @ [''hell '', ''o world '', ''. '']"
  by (simp add: handle_results_def example_results_def example_simps)

lemma example_late:
  "\<not> exit_event w \<Longrightarrow> - 1 < t_init \<Longrightarrow> t_init \<le> 1 / 10 \<Longrightarrow>
     typed (handle_results t_init example_results w) = typed w @ [''hello world '', ''. '']"
  by (simp add: handle_results_def example_results_def example_simps)

lemma example_later:
  "\<not> exit_event w \<Longrightarrow> 1 / 10 < t_init \<Longrightarrow>
     typed (handle_results t_init example_results w) = typed w @ [''hello world. '']"
  by (simp add: handle_results_def example_results_def example_simps)

text \<open>
  C5, as the code has it: the three results of the example make the engine type
  \<open>hell\<close>, \<open>o world\<close> and \<open>.\<close>, each followed by a space, exactly when the typing
  state was created at least 1.0 s before the first of them (the clock read \<open>- 1\<close> or
  less at line 105): the commit test of a partial result measures the time since
  \<open>last_type_time\<close>, which starts as the time the state was created.
\<close>

theorem example_typed:
  "\<not> exit_event w \<Longrightarrow>
     (typed (handle_results t_init example_results w) =
        typed w @ [''hell '', ''o world '', ''. '']) = (t_init \<le> - 1)"
proof -
  assume flag: "\<not> exit_event w"
  consider "t_init \<le> - 1" | "- 1 < t_init" "t_init \<le> 1 / 10" | "1 / 10 < t_init"
    by linarith
  then show ?thesis
  proof cases
    case 1
    then show ?thesis using example_early [OF flag] by simp
  next
    case 2
    then show ?thesis using example_late [OF flag] by simp
  next
    case 3
    then show ?thesis using example_later [OF flag] by simp
  qed
qed

theorem example_typed_witness:
  "\<not> exit_event (init_world (- 1)) \<and> (- 1 :: real) \<le> - 1 \<and>
   typed (handle_results (- 1) example_results (init_world (- 1))) =
     [''hell '', ''o world '', ''. '']"
proof -
  have flag: "\<not> exit_event (init_world (- 1))"
    by (simp add: init_world_def)
  show ?thesis
    using example_typed [OF flag, of "- 1"] flag by (simp add: init_world_def)
qed

text \<open>
  The claim fails for a session whose state is created at time 0: the first result,
  at time 0, is throttled, and the engine types \<open>hello world\<close> and \<open>.\<close> only.
\<close>

theorem example_fresh_state_counterexample:
  "typed (handle_results 0 example_results (init_world 0)) = [''hello world '', ''. ''] \<and>
   typed (handle_results 0 example_results (init_world 0)) \<noteq> [''hell '', ''o world '', ''. '']"
proof -
  have "\<not> exit_event (init_world 0)"
    by (simp add: init_world_def)
  then have "typed (handle_results 0 example_results (init_world 0)) =
      typed (init_world 0) @ [''hello world '', ''. '']"
    by (rule example_late) simp_all
  then show ?thesis by (simp add: init_world_def)
qed

section \<open>A growing utterance\<close>

lemma commit_extension:
  assumes base: "map lower (last_typed_text (state w)) = map lower b"
    and ext: "prefix (map lower b) (map lower (strip (text' tr)))"
  shows "commit clk tr w =
     (if lstrip (drop (length b) (strip (text' tr))) \<noteq> []
      then w\<lparr>last_speech_time := t_speech clk,
             typed := typed w @ [lstrip (drop (length b) (strip (text' tr))) @ '' ''],
             state := \<lparr>last_type_time = t_typed clk, last_typed_text = strip (text' tr)\<rparr>\<rparr>
      else w\<lparr>last_speech_time := t_speech clk\<rparr>)"
proof -
  have len: "length (last_typed_text (state w)) = length b"
    using base by (metis length_map)
  have "common_prefix_len (strip (text' tr)) (last_typed_text (state w)) =
      length (last_typed_text (state w))"
    using ext base by (simp add: common_prefix_len_prefix)
  then have "text_to_type (strip (text' tr)) (last_typed_text (state w)) =
      lstrip (drop (length b) (strip (text' tr)))"
    by (simp add: text_to_type_def len)
  then show ?thesis by (simp add: commit_unfold)
qed

lemma extension_typed_nothing:
  assumes ext: "prefix (map lower b) (map lower (strip s))"
    and none: "lstrip (drop (length b) (strip s)) = []"
  shows "map lower b = map lower (strip s)"
proof -
  have "length (strip s) \<le> length b"
    using none by (simp add: lstrip_drop_strip)
  moreover obtain zs where "map lower (strip s) = map lower b @ zs"
    using ext by (auto simp: prefix_def)
  moreover from this have "length (strip s) = length b + length zs"
    by (metis length_append length_map)
  ultimately show ?thesis by simp
qed

lemma run_typed:
  "\<not> exit_event w \<Longrightarrow> map lower (last_typed_text (state w)) = map lower b \<Longrightarrow>
   all_committed rs w \<Longrightarrow> extends b (candidates rs) \<Longrightarrow>
     typed (handle_loop rs w) =
       typed w @ map (\<lambda>u. u @ '' '')
         (filter (\<lambda>u. u \<noteq> []) (map lstrip (increments b (candidates rs))))"
proof (induction rs arbitrary: w b)
  case Nil
  show ?case by (simp add: candidates_def)
next
  case (Cons x rs)
  obtain clk r where x: "x = (clk, r)" by (cases x)
  define c where "c = strip (text' (transcript r))"
  define u where "u = lstrip (drop (length b) c)"
  have cands: "candidates (x # rs) = c # candidates rs"
    by (simp add: candidates_def x c_def)
  have ext: "prefix (map lower b) (map lower c)" and ext_rest: "extends c (candidates rs)"
    using Cons.prems(4) by (simp_all add: cands)
  have nonempty: "text' (transcript r) \<noteq> []" and test: "should_type (state w) clk (transcript r)"
    using Cons.prems(3) by (simp_all add: x)
  have com: "commit clk (transcript r) w =
     (if u \<noteq> []
      then w\<lparr>last_speech_time := t_speech clk, typed := typed w @ [u @ '' ''],
             state := \<lparr>last_type_time = t_typed clk, last_typed_text = c\<rparr>\<rparr>
      else w\<lparr>last_speech_time := t_speech clk\<rparr>)"
    using commit_extension [OF Cons.prems(2), of "transcript r" clk] ext
    by (simp add: c_def u_def)
  have out: "typed (commit clk (transcript r) w) = typed w @ map (\<lambda>u. u @ '' '') (filter (\<lambda>u. u \<noteq> []) [u])"
    by (simp add: com)
  have split: "map (\<lambda>u. u @ '' '')
        (filter (\<lambda>u. u \<noteq> []) (map lstrip (increments b (candidates (x # rs))))) =
      map (\<lambda>u. u @ '' '') (filter (\<lambda>u. u \<noteq> []) [u]) @
      map (\<lambda>u. u @ '' '') (filter (\<lambda>u. u \<noteq> []) (map lstrip (increments c (candidates rs))))"
    by (simp add: cands u_def)
  show ?case
  proof (cases "is_final (transcript r)")
    case True
    then have "rs = []" using Cons.prems(3) by (simp add: x)
    moreover have "handle_result clk r w =
        (commit clk (transcript r) w)\<lparr>state := TypeState_at (t_reset clk)\<rparr>"
      using nonempty True by (rule handle_result_final)
    ultimately have "typed (handle_loop (x # rs) w) = typed (commit clk (transcript r) w)"
      using Cons.prems(1) by (simp add: x)
    moreover have "increments c (candidates rs) = []"
      using \<open>rs = []\<close> by (simp add: candidates_def)
    ultimately show ?thesis
      by (simp only: out split) simp
  next
    case False
    have hr: "handle_result clk r w = commit clk (transcript r) w"
      using nonempty test False by (simp add: handle_result_def)
    have flag: "\<not> exit_event (commit clk (transcript r) w)"
      using Cons.prems(1) by (simp add: commit_flag)
    have base: "map lower (last_typed_text (state (commit clk (transcript r) w))) = map lower c"
    proof (cases "u = []")
      case True
      then have "map lower b = map lower c"
        using extension_typed_nothing [of b "text' (transcript r)"] ext
        by (simp add: c_def u_def)
      then show ?thesis using True Cons.prems(2) by (simp add: com)
    next
      case False
      then show ?thesis by (simp add: com)
    qed
    have rest: "all_committed rs (commit clk (transcript r) w)"
      using Cons.prems(3) False by (simp add: x hr)
    have "typed (handle_loop rs (commit clk (transcript r) w)) =
        typed (commit clk (transcript r) w) @ map (\<lambda>u. u @ '' '')
          (filter (\<lambda>u. u \<noteq> []) (map lstrip (increments c (candidates rs))))"
      using flag base rest ext_rest by (rule Cons.IH)
    moreover have "handle_loop (x # rs) w = handle_loop rs (commit clk (transcript r) w)"
      using Cons.prems(1) by (simp add: x hr)
    ultimately show ?thesis
      by (simp only: out split append_assoc)
  qed
qed

lemma increments_cover:
  "extends b cs \<Longrightarrow> map lower (b @ concat (increments b cs)) = map lower (last (b # cs))"
proof (induction cs arbitrary: b)
  case Nil
  show ?case by simp
next
  case (Cons c cs)
  then have ext: "prefix (map lower b) (map lower c)" and rest: "extends c cs"
    by simp_all
  obtain zs where zs: "map lower c = map lower b @ zs"
    using ext by (auto simp: prefix_def)
  have "map lower (drop (length b) c) = zs"
    using zs by (metis append_eq_conv_conj drop_map length_map)
  then have one: "map lower (b @ drop (length b) c) = map lower c"
    using zs by simp
  have two: "map lower (c @ concat (increments c cs)) = map lower (last (c # cs))"
    using rest by (rule Cons.IH)
  have "map lower (b @ concat (increments b (c # cs))) =
      map lower (b @ drop (length b) c) @ map lower (concat (increments c cs))"
    by simp
  also have "\<dots> = map lower c @ map lower (concat (increments c cs))"
    by (simp only: one)
  also have "\<dots> = map lower (c @ concat (increments c cs))"
    by simp
  also have "\<dots> = map lower (last (b # c # cs))"
    using two by simp
  finally show ?case .
qed

lemma filter_lstrip: "filter (\<lambda>c. \<not> isspace c) (lstrip s) = filter (\<lambda>c. \<not> isspace c) s"
  unfolding lstrip_def by (induction s) auto

lemma isspace_blank: "isspace CHR '' ''"
  by (simp add: isspace_def)

lemma letters_typed:
  "filter (\<lambda>c. \<not> isspace c) (concat (map (\<lambda>u. u @ '' '') (filter (\<lambda>u. u \<noteq> []) (map lstrip ds)))) =
   filter (\<lambda>c. \<not> isspace c) (concat ds)"
proof (induction ds)
  case Nil
  show ?case by simp
next
  case (Cons d ds)
  have "filter (\<lambda>c. \<not> isspace c) (lstrip d) = filter (\<lambda>c. \<not> isspace c) d"
    by (rule filter_lstrip)
  then show ?case
    using Cons.IH by (cases "lstrip d = []") (simp_all add: isspace_blank)
qed

lemma lower_letters:
  "map lower (filter (\<lambda>c. \<not> isspace c) s) = filter (\<lambda>c. \<not> isspace c) (map lower s)"
  by (induction s) (simp_all add: isspace_lower)

text \<open>
  C1: take the committed results of one utterance, starting from the empty baseline,
  whose stripped texts each extend the one before, case-insensitively. Then:
  \<^item> what is typed for each result is the part of its text beyond the length of the
    text before it, in the casing of the result that brought it, without leading
    whitespace and followed by one space; a result that brings nothing new types nothing;
  \<^item> these parts, one after the other, spell the last text (up to case), each position
    once: nothing typed before is typed again;
  \<^item> hence the characters typed, spaces aside, are those of the last text, spaces aside,
    in order and up to case.
\<close>

theorem prefix_diff:
  assumes "\<not> exit_event w" and "last_typed_text (state w) = []"
    and "all_committed rs w" and "extends [] (candidates rs)"
  shows "typed (handle_loop rs w) =
           typed w @ map (\<lambda>u. u @ '' '')
             (filter (\<lambda>u. u \<noteq> []) (map lstrip (increments [] (candidates rs)))) \<and>
         map lower (concat (increments [] (candidates rs))) =
           map lower (last ([] # candidates rs)) \<and>
         map lower (filter (\<lambda>c. \<not> isspace c)
             (concat (drop (length (typed w)) (typed (handle_loop rs w))))) =
           map lower (filter (\<lambda>c. \<not> isspace c) (last ([] # candidates rs)))"
proof -
  have base: "map lower (last_typed_text (state w)) = map lower []"
    using assms(2) by simp
  have one: "typed (handle_loop rs w) =
      typed w @ map (\<lambda>u. u @ '' '')
        (filter (\<lambda>u. u \<noteq> []) (map lstrip (increments [] (candidates rs))))"
    using assms(1) base assms(3,4) by (rule run_typed)
  have two: "map lower (concat (increments [] (candidates rs))) =
      map lower (last ([] # candidates rs))"
    using increments_cover [OF assms(4)] by simp
  have dropped: "drop (length (typed w)) (typed (handle_loop rs w)) =
      map (\<lambda>u. u @ '' '')
        (filter (\<lambda>u. u \<noteq> []) (map lstrip (increments [] (candidates rs))))"
    by (simp add: one)
  have "filter (\<lambda>c. \<not> isspace c) (concat (drop (length (typed w)) (typed (handle_loop rs w)))) =
      filter (\<lambda>c. \<not> isspace c) (concat (increments [] (candidates rs)))"
    by (simp only: dropped letters_typed)
  then have "map lower (filter (\<lambda>c. \<not> isspace c)
        (concat (drop (length (typed w)) (typed (handle_loop rs w))))) =
      filter (\<lambda>c. \<not> isspace c) (map lower (concat (increments [] (candidates rs))))"
    by (simp only: lower_letters)
  also have "\<dots> = map lower (filter (\<lambda>c. \<not> isspace c) (last ([] # candidates rs)))"
    by (simp only: two lower_letters)
  finally show ?thesis
    using one two by blast
qed

lemma strip_Hi: "strip ''Hi'' = ''Hi''"
  by code_simp

lemma strip_hi_there: "strip ''hi there'' = ''hi there''"
  by code_simp

lemma diff_hi_there: "text_to_type ''hi there'' ''Hi'' = ''there''"
  by code_simp

lemma growing_candidates: "candidates growing_results = [''Hi'', ''hi there'', ''HI THERE you'']"
  unfolding candidates_def growing_results_def partial_def final_def by code_simp

lemma growing_extends: "extends [] [''Hi'', ''hi there'', ''HI THERE you'']"
  by code_simp

lemma growing_parts:
  "map (\<lambda>u. u @ '' '') (filter (\<lambda>u. u \<noteq> [])
     (map lstrip (increments [] [''Hi'', ''hi there'', ''HI THERE you'']))) =
   [''Hi '', ''there '', ''you '']"
  by code_simp

lemma growing_committed: "all_committed growing_results (init_world 0)"
proof -
  have one: "handle_result (at_time 2) (partial ''Hi'') (init_world 0) =
      (init_world 0)\<lparr>last_speech_time := 2, typed := [''Hi ''],
        state := \<lparr>last_type_time = 2, last_typed_text = ''Hi''\<rparr>\<rparr>"
    using text_to_type_Nil [of "''Hi''"]
    by (simp add: handle_partial_commit init_world_def TypeState_at_def commit_unfold
        strip_Hi at_time_fields)
  have two: "handle_result (at_time 4) (partial ''hi there'')
      ((init_world 0)\<lparr>last_speech_time := 2, typed := [''Hi ''],
        state := \<lparr>last_type_time = 2, last_typed_text = ''Hi''\<rparr>\<rparr>) =
      (init_world 0)\<lparr>last_speech_time := 4, typed := [''Hi '', ''there ''],
        state := \<lparr>last_type_time = 4, last_typed_text = ''hi there''\<rparr>\<rparr>"
    by (simp add: handle_partial_commit commit_unfold strip_hi_there diff_hi_there at_time_fields)
  have tests: "should_type (state (init_world 0)) (at_time 2) (transcript (partial ''Hi''))"
    "should_type (state ((init_world 0)\<lparr>last_speech_time := 2, typed := [''Hi ''],
        state := \<lparr>last_type_time = 2, last_typed_text = ''Hi''\<rparr>\<rparr>)) (at_time 4)
       (transcript (partial ''hi there''))"
    "should_type (state ((init_world 0)\<lparr>last_speech_time := 4, typed := [''Hi '', ''there ''],
        state := \<lparr>last_type_time = 4, last_typed_text = ''hi there''\<rparr>\<rparr>)) (at_time 5)
       (transcript (final ''HI THERE you''))"
    by (simp_all add: should_type_unfold partial_def final_def at_time_fields init_world_def
        TypeState_at_def)
  have texts: "text' (transcript (partial ''Hi'')) \<noteq> []"
    "text' (transcript (partial ''hi there'')) \<noteq> []"
    "text' (transcript (final ''HI THERE you'')) \<noteq> []"
    "\<not> is_final (transcript (partial ''Hi''))" "\<not> is_final (transcript (partial ''hi there''))"
    "is_final (transcript (final ''HI THERE you''))"
    by (simp_all add: partial_def final_def)
  show ?thesis
    unfolding growing_results_def
    by (simp only: all_committed.simps one two tests texts) simp
qed

theorem prefix_diff_witness:
  "\<not> exit_event (init_world 0) \<and> last_typed_text (state (init_world 0)) = [] \<and>
   all_committed growing_results (init_world 0) \<and> extends [] (candidates growing_results) \<and>
   candidates growing_results = [''Hi'', ''hi there'', ''HI THERE you''] \<and>
   typed (handle_loop growing_results (init_world 0)) = [''Hi '', ''there '', ''you '']"
proof -
  have a: "\<not> exit_event (init_world 0)" and b: "last_typed_text (state (init_world 0)) = []"
    by (simp_all add: init_world_def TypeState_at_def)
  have c: "all_committed growing_results (init_world 0)"
    by (rule growing_committed)
  have d: "extends [] (candidates growing_results)"
    by (simp only: growing_candidates growing_extends)
  have t: "typed (init_world 0) = []"
    by (simp add: init_world_def)
  have "typed (handle_loop growing_results (init_world 0)) = [''Hi '', ''there '', ''you '']"
    using prefix_diff [OF a b c d] by (simp only: growing_candidates growing_parts t) simp
  with a b c d growing_candidates show ?thesis by blast
qed

section \<open>After the flag is set\<close>











section \<open>The silence monitor\<close>









end
